theory Spec2Isabelle
  imports Main "HOL-Library.Word"
begin

unbundle bit_operations_syntax

section \<open>Constants and data of hexdump.go\<close>

text \<open>
  A Go \<open>byte\<close> is an unsigned 8-bit word and the running offset a \<open>uint64\<close>, whose
  \<open>position++\<close> wraps around at \<open>2 ^ 64\<close>. Go strings are byte strings; they are
  modelled as HOL strings, one \<open>char\<close> per byte.
\<close>

type_synonym byte = "8 word"
type_synonym uint64 = "64 word"

definition bufferSize :: nat where
  "bufferSize = 4096"

definition normalWidth :: nat where
  "normalWidth = 16"

definition wideWidth :: nat where
  "wideWidth = 32"

definition extraWideWidth :: nat where
  "extraWideWidth = 64"

definition maxUint16 :: "16 word" where
  "maxUint16 = NOT 0"

definition maxUint32 :: "32 word" where
  "maxUint32 = NOT 0"

definition chSpace :: byte where
  "chSpace = 0x20"

definition chDel :: byte where
  "chDel = 0x7F"

text \<open>
  The address formats \<open>hex16Bits = "%4.4X"\<close>, \<open>hex32Bits = "%8.8X"\<close> and
  \<open>hex64Bits = "%16.16X"\<close> (and the unused \<open>hex8Bits = "%2.2X"\<close>) are format strings
  in the source. Each is the verb \<open>%N.NX\<close>; the model keeps the constant's name and
  reads \<open>N\<close> off it with \<open>scalePrecision\<close>.
\<close>

datatype fileScale = hex8Bits | hex16Bits | hex32Bits | hex64Bits

fun scalePrecision :: "fileScale \<Rightarrow> nat" where
  "scalePrecision hex8Bits = 2"
| "scalePrecision hex16Bits = 4"
| "scalePrecision hex32Bits = 8"
| "scalePrecision hex64Bits = 16"

section \<open>The formatting verbs of package fmt that the program uses\<close>

definition upperDigit :: "nat \<Rightarrow> char" where
  "upperDigit d = ''0123456789ABCDEF'' ! d"

definition lowerDigit :: "nat \<Rightarrow> char" where
  "lowerDigit d = ''0123456789abcdef'' ! d"

text \<open>The base-16 digits of an unsigned value, most significant first, no padding.\<close>

function fmtDigits :: "(nat \<Rightarrow> char) \<Rightarrow> nat \<Rightarrow> string" where
  "fmtDigits dig u =
     (if u < 16 then [dig u] else fmtDigits dig (u div 16) @ [dig (u mod 16)])"
  by pat_completeness auto
termination
  by (relation "measure (\<lambda>(dig, u). u)") auto

declare fmtDigits.simps [simp del]

text \<open>
  \<open>%N.Nx\<close> and \<open>%N.NX\<close> on an unsigned integer: the precision \<open>N\<close> asks for at
  least \<open>N\<close> digits, filled with zeros on the left; the width \<open>N\<close> then has nothing
  left to pad. A value with more than \<open>N\<close> digits is printed in full.
\<close>

definition fmtInteger :: "(nat \<Rightarrow> char) \<Rightarrow> nat \<Rightarrow> nat \<Rightarrow> string" where
  "fmtInteger dig prec u =
     (let ds = fmtDigits dig u in replicate (prec - length ds) (CHR ''0'') @ ds)"

text \<open>\<open>fmt.Sprintf(fileScale, linePosition)\<close>: the address in upper case.\<close>

definition fmtAddress :: "fileScale \<Rightarrow> uint64 \<Rightarrow> string" where
  "fmtAddress sc v = fmtInteger upperDigit (scalePrecision sc) (unat v)"

text \<open>\<open>%2.2x\<close> on a byte: two lower-case digits.\<close>

definition fmtByte :: "byte \<Rightarrow> string" where
  "fmtByte b = fmtInteger lowerDigit 2 (unat b)"

text \<open>
  \<open>%c\<close> on a byte prints the Unicode code point of that value in UTF-8: one byte
  below \<open>0x80\<close>, two bytes from there on.
\<close>

definition fmtChar :: "byte \<Rightarrow> string" where
  "fmtChar b =
     (if unat b < 128 then [char_of (unat b)]
      else [char_of (192 + unat b div 64), char_of (128 + unat b mod 64)])"

text \<open>\<open>%-Ns\<close>: the string, then spaces up to \<open>N\<close> characters; a longer string is kept.\<close>

definition padRight :: "nat \<Rightarrow> string \<Rightarrow> string" where
  "padRight w s = s @ replicate (w - length s) (CHR '' '')"

text \<open>
  One \<open>fmt.Printf(outputFormat, linePosition, hexDigits, chrDigits)\<close>, where
  \<open>outputFormat\<close> is \<open>fileScale + " : " + "%-" + 3*displayWidth + "s" + "  : %s\n"\<close>.
\<close>

definition printfLine :: "fileScale \<Rightarrow> nat \<Rightarrow> uint64 \<Rightarrow> string \<Rightarrow> string \<Rightarrow> string" where
  "printfLine sc displayWidth linePosition hexDigits chrDigits =
     fmtAddress sc linePosition @ '' : '' @ padRight (3 * displayWidth) hexDigits
       @ ''  : '' @ chrDigits @ [CHR 0x0A]"

section \<open>isPrintable\<close>

definition isPrintable :: "byte \<Rightarrow> bool" where
  "isPrintable ch = (if ch \<ge> chSpace \<and> ch < chDel then True else False)"

section \<open>formatBuffer\<close>

text \<open>
  The local variables of one call, and the lines the call has written to standard
  output so far (one list element per \<open>fmt.Printf\<close>).
\<close>

record fmtState =
  position :: uint64
  linePosition :: uint64
  hexDigits :: string
  chrDigits :: string
  written :: "string list"

datatype panic = DivideByZero | IndexOutOfRange

text \<open>Lines 131 to 137: the row is flushed when the offset is a multiple of the width.\<close>

definition flushRow :: "fileScale \<Rightarrow> nat \<Rightarrow> nat \<Rightarrow> fmtState \<Rightarrow> fmtState" where
  "flushRow sc displayWidth i s =
     (let widthCounter = position s mod (of_nat displayWidth) in
      if widthCounter = 0 \<and> i > 0
      then s\<lparr>written := written s
                 @ [printfLine sc displayWidth (linePosition s) (hexDigits s) (chrDigits s)],
              hexDigits := [], chrDigits := [], linePosition := position s\<rparr>
      else s)"

text \<open>Lines 139 to 147: the byte is appended to both accumulators.\<close>

definition appendByte :: "byte \<Rightarrow> fmtState \<Rightarrow> fmtState" where
  "appendByte b s =
     s\<lparr>hexDigits := hexDigits s @ '' '' @ fmtByte b,
       chrDigits := (if isPrintable b then chrDigits s @ fmtChar b
                     else chrDigits s @ ''.''),
       position := position s + 1\<rparr>"

text \<open>
  The \<open>for\<close> loop. The remainder by \<open>uint64(displayWidth)\<close> when that is zero
  and the read of \<open>buffer[i]\<close> beyond the slice are run-time panics in Go.
  \<open>displayWidth\<close> is a Go \<open>int\<close>; its non-negative values are modelled.
\<close>

function formatLoop ::
  "byte list \<Rightarrow> int \<Rightarrow> fileScale \<Rightarrow> nat \<Rightarrow> nat \<Rightarrow> fmtState \<Rightarrow> (panic \<times> fmtState) + fmtState" where
  "formatLoop buffer bytesInBuffer sc displayWidth i s =
     (if int i < bytesInBuffer then
        (if (of_nat displayWidth :: uint64) = 0 then Inl (DivideByZero, s)
         else let s1 = flushRow sc displayWidth i s in
           if i \<ge> length buffer then Inl (IndexOutOfRange, s1)
           else formatLoop buffer bytesInBuffer sc displayWidth (i + 1)
                  (appendByte (buffer ! i) s1))
      else Inr s)"
  by pat_completeness auto
termination
  by (relation "measure (\<lambda>(buffer, n, sc, w, i, s). nat (n - int i))") auto

declare formatLoop.simps [simp del]

text \<open>
  The whole call. A panic carries the lines already written; a normal return carries
  all lines of the call and the returned offset.
\<close>

definition formatBuffer ::
  "byte list \<Rightarrow> int \<Rightarrow> fileScale \<Rightarrow> uint64 \<Rightarrow> nat \<Rightarrow> (panic \<times> string list) + (string list \<times> uint64)" where
  "formatBuffer buffer bytesInBuffer sc pos displayWidth =
     (case formatLoop buffer bytesInBuffer sc displayWidth 0
             \<lparr>position = pos, linePosition = pos, hexDigits = [], chrDigits = [], written = []\<rparr> of
        Inl (p, s) \<Rightarrow> Inl (p, written s)
      | Inr s \<Rightarrow>
          Inr (written s
                 @ [printfLine sc displayWidth (linePosition s) (hexDigits s) (chrDigits s)],
               position s))"

section \<open>hexdump: the stream driver\<close>

text \<open>
  A file handle is modelled by what its successive \<open>Read(buffer)\<close> calls return:
  \<open>fh k\<close> is the outcome of call number \<open>k\<close>, the bytes stored at the start of
  the buffer (their count is the returned \<open>n\<close>) and the error, \<open>None\<close> for
  \<open>nil\<close>. An error other than \<open>io.EOF\<close> carries the text of \<open>err.Error()\<close>.
\<close>

datatype ioError = EOF | otherError string

type_synonym reader = "nat \<Rightarrow> byte list \<times> ioError option"

text \<open>\<open>fmt.Println("Error:", err)\<close>, written to standard output.\<close>

fun printlnError :: "ioError \<Rightarrow> string" where
  "printlnError EOF = ''Error: EOF'' @ [CHR 0x0A]"
| "printlnError (otherError msg) = ''Error: '' @ msg @ [CHR 0x0A]"

text \<open>
  The endless \<open>for\<close> loop of \<open>hexdump\<close>. It returns only when a read reports an
  error, so on a handle that never does the result is \<open>None\<close>. The result is the
  panic that stopped the call, if any, and everything written to standard output.
\<close>

partial_function (option) hexdumpLoop ::
  "reader \<Rightarrow> fileScale \<Rightarrow> nat \<Rightarrow> nat \<Rightarrow> byte list \<Rightarrow> uint64 \<Rightarrow> string list
     \<Rightarrow> (panic option \<times> string list) option" where
  "hexdumpLoop fh sc displayWidth k buffer offset out =
     (case fh k of (bytes, err) \<Rightarrow>
        (let bufferRead = int (length bytes);
             buffer1 = bytes @ drop (length bytes) buffer
         in case err of
              None \<Rightarrow>
                (case formatBuffer buffer1 bufferRead sc offset displayWidth of
                   Inl (p, ls) \<Rightarrow> Some (Some p, out @ ls)
                 | Inr (ls, offset1) \<Rightarrow>
                     hexdumpLoop fh sc displayWidth (k + 1) buffer1 offset1 (out @ ls))
            | Some e \<Rightarrow>
                Some (None, if e \<noteq> EOF then out @ [printlnError e] else out)))"

definition hexdump :: "reader \<Rightarrow> fileScale \<Rightarrow> nat \<Rightarrow> (panic option \<times> string list) option" where
  "hexdump fh sc displayWidth =
     hexdumpLoop fh sc displayWidth 0 (replicate bufferSize 0) 0 []"

text \<open>
  A handle that delivers the given chunks, one per read and without error, and then
  reports the given error for ever.
\<close>

definition scripted :: "byte list list \<Rightarrow> byte list \<times> ioError \<Rightarrow> reader" where
  "scripted chunks final k = (if k < length chunks then (chunks ! k, None)
                             else (fst final, Some (snd final)))"

section \<open>openRegularFile and main\<close>

text \<open>
  The file system is a parameter: for each path, what \<open>os.Stat\<close> returns (an error
  text, or the mode's \<open>IsRegular()\<close> and the \<open>Size()\<close>, an \<open>int64\<close>) and what
  \<open>os.Open\<close> returns (an error text or a handle).
\<close>

record fileInfo =
  isRegular :: bool
  fileSize :: int

record fsEntry =
  statResult :: "string + fileInfo"
  openResult :: "string + reader"

type_synonym fileSystem = "string \<Rightarrow> fsEntry"

text \<open>
  Of the three named results \<open>(fh, fileSizeScale, err)\<close> the caller reads the first
  two only when \<open>err\<close> is \<open>nil\<close>: the result is the error text, or the handle
  and the address format.
\<close>

definition openRegularFile :: "fileSystem \<Rightarrow> string \<Rightarrow> string + (reader \<times> fileScale)" where
  "openRegularFile fs filename =
     (case statResult (fs filename) of
        Inl err \<Rightarrow> Inl err
      | Inr info \<Rightarrow>
          if \<not> isRegular info
          then Inl (''open '' @ filename @ '': It'' @ [CHR 0x27] @ ''s not a regular file'')
          else
            let fileSizeScale =
                  (if fileSize info < uint maxUint16 then hex16Bits
                   else if fileSize info < uint maxUint32 then hex32Bits
                   else hex64Bits)
            in case openResult (fs filename) of
                 Inl err \<Rightarrow> Inl err
               | Inr fh \<Rightarrow> Inr (fh, fileSizeScale))"

record console =
  stdout :: "string list"
  stderr :: "string list"

datatype exitStatus = exitCode nat | panicked panic

definition skipWarning :: "string \<Rightarrow> string" where
  "skipWarning err = [CHR 0x0A] @ ''Warning: Skipping file: '' @ err @ [CHR 0x0A]"

text \<open>
  The \<open>for i := range args\<close> loop of \<open>main\<close>. A panic inside \<open>hexdump\<close> ends
  the process; a \<open>hexdump\<close> that never returns leaves the whole run without result.
\<close>

fun dumpFiles ::
  "fileSystem \<Rightarrow> nat \<Rightarrow> string list \<Rightarrow> console \<Rightarrow> (console \<times> exitStatus) option" where
  "dumpFiles fs displayWidth [] con = Some (con, exitCode 0)"
| "dumpFiles fs displayWidth (file # args) con =
     (case openRegularFile fs file of
        Inl err \<Rightarrow>
          dumpFiles fs displayWidth args (con\<lparr>stderr := stderr con @ [skipWarning err]\<rparr>)
      | Inr (fh, fileScale) \<Rightarrow>
          (case hexdump fh fileScale displayWidth of
             None \<Rightarrow> None
           | Some (Some p, out) \<Rightarrow> Some (con\<lparr>stdout := stdout con @ out\<rparr>, panicked p)
           | Some (None, out) \<Rightarrow>
               dumpFiles fs displayWidth args (con\<lparr>stdout := stdout con @ out\<rparr>)))"

text \<open>
  \<open>main\<close>, from the parsed flags \<open>-w\<close> and \<open>-x\<close> and the remaining arguments on.
\<close>

definition main ::
  "reader \<Rightarrow> fileSystem \<Rightarrow> bool \<Rightarrow> bool \<Rightarrow> string list \<Rightarrow> (console \<times> exitStatus) option" where
  "main stdin fs wide extraWide args =
     (if wide \<and> extraWide
      then Some (\<lparr>stdout = [],
                  stderr = [''Error: Wide and Extra wide options are mutually exclusive''
                              @ [CHR 0x0A]]\<rparr>,
                 exitCode 1)
      else
        let displayWidth = (if wide then wideWidth
                            else if extraWide then extraWideWidth
                            else normalWidth)
        in if length args = 0
           then (case hexdump stdin hex64Bits displayWidth of
                   None \<Rightarrow> None
                 | Some (Some p, out) \<Rightarrow> Some (\<lparr>stdout = out, stderr = []\<rparr>, panicked p)
                 | Some (None, out) \<Rightarrow> Some (\<lparr>stdout = out, stderr = []\<rparr>, exitCode 0))
           else dumpFiles fs displayWidth args \<lparr>stdout = [], stderr = []\<rparr>)"

section \<open>Auxiliary notions for the proofs\<close>

text \<open>
  None of the following is in the source. First, what the accumulators hold for the
  bytes of a row: \<open>hexOf\<close> is the hex accumulator, \<open>chrOf\<close> the ASCII one, and
  \<open>rowLine\<close> the line printed for a row given by its address and its bytes.
\<close>

definition asciiOf :: "byte \<Rightarrow> string" where
  "asciiOf b = (if isPrintable b then fmtChar b else ''.'')"

definition hexOf :: "byte list \<Rightarrow> string" where
  "hexOf bs = concat (map (\<lambda>b. '' '' @ fmtByte b) bs)"

definition chrOf :: "byte list \<Rightarrow> string" where
  "chrOf bs = concat (map asciiOf bs)"

definition rowLine :: "fileScale \<Rightarrow> nat \<Rightarrow> uint64 \<times> byte list \<Rightarrow> string" where
  "rowLine sc displayWidth r = printfLine sc displayWidth (fst r) (hexOf (snd r)) (chrOf (snd r))"

text \<open>
  The loop of \<open>formatBuffer\<close> as a recursion over the bytes it consumes, on the
  state (\<open>feed\<close>) and on rows of bytes (\<open>rowsFrom\<close>); \<open>later\<close> stands for
  \<open>i > 0\<close>. \<open>chunkRows\<close> are the rows of one call, \<open>room\<close> the bytes a row can
  still take at an offset, and \<open>contiguous\<close> says that each row's address is the
  offset of its first byte.
\<close>

fun feed :: "fileScale \<Rightarrow> nat \<Rightarrow> bool \<Rightarrow> byte list \<Rightarrow> fmtState \<Rightarrow> fmtState" where
  "feed sc w later [] s = s"
| "feed sc w later (b # bs) s =
     feed sc w True bs (appendByte b (flushRow sc w (if later then 1 else 0) s))"

fun rowsFrom :: "nat \<Rightarrow> bool \<Rightarrow> uint64 \<Rightarrow> uint64 \<Rightarrow> byte list \<Rightarrow> byte list \<Rightarrow> (uint64 \<times> byte list) list" where
  "rowsFrom w later pos lp cur [] = [(lp, cur)]"
| "rowsFrom w later pos lp cur (b # bs) =
     (if pos mod of_nat w = 0 \<and> later
      then (lp, cur) # rowsFrom w True (pos + 1) pos [b] bs
      else rowsFrom w True (pos + 1) lp (cur @ [b]) bs)"

definition chunkRows :: "nat \<Rightarrow> uint64 \<Rightarrow> byte list \<Rightarrow> (uint64 \<times> byte list) list" where
  "chunkRows w pos bs = rowsFrom w False pos pos [] bs"

definition room :: "nat \<Rightarrow> uint64 \<Rightarrow> nat" where
  "room w pos = (if unat pos mod w = 0 then 0 else w - unat pos mod w)"



definition hexColumn :: "nat \<Rightarrow> string \<Rightarrow> string" where
  "hexColumn w l = take (3 * w) (drop 3 (dropWhile (\<lambda>c. c \<noteq> CHR '' '') l))"

definition asciiColumn :: "nat \<Rightarrow> string \<Rightarrow> string" where
  "asciiColumn w l = butlast (drop (3 * w + 4) (drop 3 (dropWhile (\<lambda>c. c \<noteq> CHR '' '') l)))"

definition hexValue :: "char \<Rightarrow> nat" where
  "hexValue c = (if of_char c < (58::nat) then of_char c - 48 else of_char c - 87)"

fun decodeHex :: "string \<Rightarrow> byte list" where
  "decodeHex (c0 # c1 # c2 # rest) =
     (if c1 = CHR '' '' then [] else of_nat (16 * hexValue c1 + hexValue c2) # decodeHex rest)"
| "decodeHex _ = []"

definition lineBytes :: "nat \<Rightarrow> string \<Rightarrow> byte list" where
  "lineBytes w l = decodeHex (hexColumn w l)"

text \<open>
  The lines of successive calls of \<open>formatBuffer\<close> on a list of chunks, with the
  offset carried from call to call, and the line that \<open>hexdump\<close> writes for the error
  that ends the loop.
\<close>

fun chunkLines :: "fileScale \<Rightarrow> nat \<Rightarrow> uint64 \<Rightarrow> byte list list \<Rightarrow> string list" where
  "chunkLines sc w off [] = []"
| "chunkLines sc w off (c # cs) =
     map (rowLine sc w) (chunkRows w off c) @ chunkLines sc w (off + of_nat (length c)) cs"

definition errorLines :: "ioError \<Rightarrow> string list" where
  "errorLines e = (if e \<noteq> EOF then [printlnError e] else [])"






text \<open>A file system without any file, for the examples that read standard input.\<close>

definition noFiles :: fileSystem where
  "noFiles path = \<lparr>statResult = Inl (''stat '' @ path @ '': no such file or directory''),
                    openResult = Inl (''open '' @ path @ '': no such file or directory'')\<rparr>"



text \<open>
  A regular file of \<open>n\<close> zero bytes as a handle: full buffers, then the rest, then
  the end of the stream.
\<close>

definition zeroFile :: "nat \<Rightarrow> reader" where
  "zeroFile n =
     scripted (replicate (n div bufferSize) (replicate bufferSize 0)
                 @ (if n mod bufferSize = 0 then [] else [replicate (n mod bufferSize) 0]))
       ([], EOF)"

text \<open>
  A small file system for the examples: \<open>a\<close> is a regular file whose first read
  fails, \<open>b\<close> and \<open>c\<close> are regular files of one byte, \<open>d\<close> is a directory,
  \<open>k16\<close>, \<open>k32\<close> and \<open>k64\<close> are regular files of 65534, 65535 and 4294967295
  zero bytes, and no other path exists.
\<close>

definition exampleFiles :: fileSystem where
  "exampleFiles path =
     (if path = ''a''
      then \<lparr>statResult = Inr \<lparr>isRegular = True, fileSize = 3\<rparr>,
            openResult = Inr (scripted [] ([], otherError ''read a: input/output error''))\<rparr>
      else if path = ''b''
      then \<lparr>statResult = Inr \<lparr>isRegular = True, fileSize = 1\<rparr>,
            openResult = Inr (scripted [[0x41]] ([], EOF))\<rparr>
      else if path = ''c''
      then \<lparr>statResult = Inr \<lparr>isRegular = True, fileSize = 1\<rparr>,
            openResult = Inr (scripted [[0x42]] ([], EOF))\<rparr>
      else if path = ''d''
      then \<lparr>statResult = Inr \<lparr>isRegular = False, fileSize = 4096\<rparr>,
            openResult = Inr (scripted [] ([], otherError ''read d: is a directory''))\<rparr>
      else if path = ''k16''
      then \<lparr>statResult = Inr \<lparr>isRegular = True, fileSize = 65534\<rparr>,
            openResult = Inr (zeroFile 65534)\<rparr>
      else if path = ''k32''
      then \<lparr>statResult = Inr \<lparr>isRegular = True, fileSize = 65535\<rparr>,
            openResult = Inr (zeroFile 65535)\<rparr>
      else if path = ''k64''
      then \<lparr>statResult = Inr \<lparr>isRegular = True, fileSize = 4294967295\<rparr>,
            openResult = Inr (zeroFile 4294967295)\<rparr>
      else noFiles path)"

section \<open>Auxiliary lemmas\<close>

lemma flushRow_later: "flushRow sc w i s = flushRow sc w (if 0 < i then 1 else 0) s"
  by (simp add: flushRow_def)

lemma formatLoop_feed:
  "(of_nat w :: uint64) \<noteq> 0 \<Longrightarrow> nat n \<le> length buffer \<Longrightarrow>
   formatLoop buffer n sc w i s = Inr (feed sc w (0 < i) (drop i (take (nat n) buffer)) s)"
proof (induction buffer n sc w i s rule: formatLoop.induct)
  case (1 buffer n sc w i s)
  show ?case
  proof (cases "int i < n")
    case True
    then have il: "i < length buffer" and itl: "i < length (take (nat n) buffer)"
      using "1.prems" by auto
    have d: "drop i (take (nat n) buffer) = buffer ! i # drop (Suc i) (take (nat n) buffer)"
      using itl by (metis Cons_nth_drop_Suc nth_take length_take min_less_iff_conj)
    have "formatLoop buffer n sc w i s =
          formatLoop buffer n sc w (i + 1) (appendByte (buffer ! i) (flushRow sc w i s))"
      using True il "1.prems" by (subst formatLoop.simps) (simp add: Let_def)
    also have "\<dots> = Inr (feed sc w True (drop (Suc i) (take (nat n) buffer))
                       (appendByte (buffer ! i) (flushRow sc w i s)))"
      using "1.IH"[OF True _ refl] il "1.prems" by simp
    also have "feed sc w True (drop (Suc i) (take (nat n) buffer))
                       (appendByte (buffer ! i) (flushRow sc w i s))
               = feed sc w (0 < i) (drop i (take (nat n) buffer)) s"
      by (subst d) (simp add: flushRow_def)
    finally show ?thesis .
  next
    case False
    then have "drop i (take (nat n) buffer) = []" by simp
    then show ?thesis using False by (subst formatLoop.simps) simp
  qed
qed

lemma feed_rows:
  "hexDigits s = hexOf cur \<Longrightarrow> chrDigits s = chrOf cur \<Longrightarrow>
   written (feed sc w later bs s)
       @ [printfLine sc w (linePosition (feed sc w later bs s))
            (hexDigits (feed sc w later bs s)) (chrDigits (feed sc w later bs s))]
     = written s @ map (rowLine sc w) (rowsFrom w later (position s) (linePosition s) cur bs)"
proof (induction bs arbitrary: s cur later)
  case Nil
  then show ?case by (simp add: rowLine_def)
next
  case (Cons b bs)
  define s1 where "s1 = appendByte b (flushRow sc w (if later then 1 else 0) s)"
  have step: "feed sc w later (b # bs) s = feed sc w True bs s1"
    by (simp only: feed.simps s1_def)
  have p: "position s1 = position s + 1"
    by (simp add: s1_def appendByte_def flushRow_def)
  show ?case
  proof (cases "position s mod of_nat w = 0 \<and> later")
    case True
    have h: "hexDigits s1 = hexOf [b]" "chrDigits s1 = chrOf [b]"
      "linePosition s1 = position s"
      "written s1 = written s @ [rowLine sc w (linePosition s, cur)]"
      using True Cons.prems
      by (simp_all add: s1_def appendByte_def flushRow_def hexOf_def chrOf_def asciiOf_def
            rowLine_def)
    show ?thesis
      unfolding step using Cons.IH[OF h(1) h(2), of True] True by (simp add: h p)
  next
    case False
    have h: "hexDigits s1 = hexOf (cur @ [b])" "chrDigits s1 = chrOf (cur @ [b])"
      "linePosition s1 = linePosition s" "written s1 = written s"
      using False Cons.prems
      by (auto simp add: s1_def appendByte_def flushRow_def hexOf_def chrOf_def asciiOf_def)
    show ?thesis
      unfolding step using Cons.IH[OF h(1) h(2), of True] False by (auto simp add: h p)
  qed
qed

lemma feed_position: "position (feed sc w later bs s) = position s + of_nat (length bs)"
  by (induction bs arbitrary: s later) (simp_all add: appendByte_def flushRow_def)

lemma formatBuffer_rows:
  assumes "(of_nat w :: uint64) \<noteq> 0" "nat n \<le> length buffer"
  shows "formatBuffer buffer n sc pos w =
         Inr (map (rowLine sc w) (chunkRows w pos (take (nat n) buffer)), pos + of_nat (nat n))"
proof -
  let ?s0 = "\<lparr>position = pos, linePosition = pos, hexDigits = [], chrDigits = [], written = []\<rparr>"
  have "hexDigits ?s0 = hexOf []" "chrDigits ?s0 = chrOf []"
    by (simp_all add: hexOf_def chrOf_def)
  from feed_rows[OF this, of sc w False "take (nat n) buffer"] assms
  show ?thesis
    by (simp add: formatBuffer_def formatLoop_feed chunkRows_def feed_position min_def)
qed

lemma unat_succ_mod:
  assumes "w dvd 2 ^ 64"
  shows "unat (pos + 1 :: uint64) mod w = (unat pos + 1) mod w"
proof -
  have "unat (pos + 1) = (unat pos + 1) mod 2 ^ 64"
    by (simp add: unat_word_ariths)
  then show ?thesis using assms by (simp add: mod_mod_cancel)
qed


lemma boundary_iff:
  assumes "w < 2 ^ 64"
  shows "(pos mod of_nat w = (0 :: uint64)) \<longleftrightarrow> unat pos mod w = 0"
proof -
  have "unat (pos mod of_nat w) = unat pos mod w"
    using assms by (simp add: unat_mod unat_of_nat)
  then show ?thesis by (metis unat_eq_zero)
qed


lemma rows_concat: "concat (map snd (rowsFrom w later pos lp cur bs)) = cur @ bs"
  by (induction bs arbitrary: later pos lp cur) simp_all

lemma room_succ:
  assumes "w dvd 2 ^ 64" "0 < w"
  shows "room w (pos + 1) = w - unat pos mod w - 1"
proof -
  have m: "unat pos mod w < w" using assms(2) by simp
  have "unat (pos + 1) mod w = Suc (unat pos) mod w"
    using unat_succ_mod[OF assms(1)] by simp
  also have "\<dots> = (if Suc (unat pos mod w) = w then 0 else Suc (unat pos mod w))"
    by (simp add: mod_Suc)
  finally show ?thesis using m by (auto simp add: room_def)
qed

lemma rowsFrom_later:
  assumes "w dvd 2 ^ 64" "w < 2 ^ 64"
  shows "rowsFrom w True pos lp cur bs =
         (if length bs \<le> room w pos then [(lp, cur @ bs)]
          else (lp, cur @ take (room w pos) bs)
                 # chunkRows w (pos + of_nat (room w pos)) (drop (room w pos) bs))"
proof (induction bs arbitrary: pos cur)
  case Nil
  then show ?case by simp
next
  case (Cons b bs)
  have w0: "0 < w" using assms(1) by (auto intro: Nat.gr0I)
  show ?case
  proof (cases "unat pos mod w = 0")
    case True
    then have "room w pos = 0" by (simp add: room_def)
    moreover have "pos mod of_nat w = 0" using True boundary_iff[OF assms(2)] by simp
    ultimately show ?thesis by (simp add: chunkRows_def)
  next
    case False
    then have nb: "pos mod of_nat w \<noteq> 0" using boundary_iff[OF assms(2)] by simp
    have r: "room w pos = Suc (room w (pos + 1))"
      using False room_succ[OF assms(1) w0, of pos] w0
      by (simp add: room_def) (metis Suc_diff_Suc Suc_pred' mod_less_divisor zero_less_diff diff_Suc_eq_diff_pred)
    have "rowsFrom w True pos lp cur (b # bs) = rowsFrom w True (pos + 1) lp (cur @ [b]) bs"
      using nb by simp
    also have "\<dots> = (if length bs \<le> room w (pos + 1) then [(lp, (cur @ [b]) @ bs)]
          else (lp, (cur @ [b]) @ take (room w (pos + 1)) bs)
                 # chunkRows w (pos + 1 + of_nat (room w (pos + 1))) (drop (room w (pos + 1)) bs))"
      by (rule Cons.IH)
    finally show ?thesis by (simp add: r add.assoc)
  qed
qed

lemma chunkRows_unfold:
  assumes "w dvd 2 ^ 64" "w < 2 ^ 64"
  shows "chunkRows w p bs =
         (if length bs \<le> w - unat p mod w then [(p, bs)]
          else (p, take (w - unat p mod w) bs)
                 # chunkRows w (p + of_nat (w - unat p mod w)) (drop (w - unat p mod w) bs))"
proof (cases bs)
  case Nil
  then show ?thesis by (simp add: chunkRows_def)
next
  case (Cons b bs')
  have w0: "0 < w" using assms(1) by (auto intro: Nat.gr0I)
  have k: "w - unat p mod w = Suc (room w (p + 1))"
    using room_succ[OF assms(1) w0, of p] w0
    by (metis Suc_pred' mod_less_divisor zero_less_diff)
  have "chunkRows w p bs = rowsFrom w True (p + 1) p [b] bs'"
    by (simp add: chunkRows_def Cons)
  then show ?thesis
    by (simp add: rowsFrom_later[OF assms] k Cons add.assoc)
qed



lemma chunkRows_concat: "concat (map snd (chunkRows w p bs)) = bs"
  by (simp add: chunkRows_def rows_concat)


lemma chunkRows_lengths:
  assumes "w dvd 2 ^ 64" "w < 2 ^ 64"
  shows "r \<in> set (chunkRows w p bs) \<Longrightarrow> length (snd r) \<le> w \<and> (bs \<noteq> [] \<longrightarrow> snd r \<noteq> [])"
proof (induction "length bs" arbitrary: p bs rule: less_induct)
  case less
  have w0: "0 < w" using assms(1) by (auto intro: Nat.gr0I)
  let ?k = "w - unat p mod w"
  have k0: "0 < ?k" using w0 by simp
  show ?case
  proof (cases "length bs \<le> ?k")
    case True
    then have "chunkRows w p bs = [(p, bs)]"
      by (subst chunkRows_unfold[OF assms]) simp
    then show ?thesis using less.prems True by auto
  next
    case False
    then have u: "chunkRows w p bs = (p, take ?k bs) # chunkRows w (p + of_nat ?k) (drop ?k bs)"
      by (subst chunkRows_unfold[OF assms]) simp
    have shorter: "length (drop ?k bs) < length bs" using False k0 by simp
    have ne: "drop ?k bs \<noteq> []" using False by simp
    from less.prems u consider "r = (p, take ?k bs)"
      | "r \<in> set (chunkRows w (p + of_nat ?k) (drop ?k bs))" by auto
    then show ?thesis
    proof cases
      case 1
      then show ?thesis using False k0 by auto
    next
      case 2
      from less.hyps[OF shorter 2] ne show ?thesis by simp
    qed
  qed
qed



lemma below_16_cases:
  assumes "d < (16::nat)"
  shows "d \<in> {0, 1, 2, 3, 4, 5, 6, 7, 8, 9, 10, 11, 12, 13, 14, 15}"
  using assms by (simp only: insert_iff empty_iff) arith

lemma lowerDigit_value: "d < 16 \<Longrightarrow> hexValue (lowerDigit d) = d \<and> lowerDigit d \<noteq> CHR '' ''"
  using below_16_cases[of d] by (auto simp add: hexValue_def lowerDigit_def)

lemma upperDigit_no_space: "d < 16 \<Longrightarrow> upperDigit d \<noteq> CHR '' ''"
  using below_16_cases[of d] by (auto simp add: upperDigit_def)

lemma unat_byte_less: "unat (b :: byte) < 256"
proof -
  have "unat b < 2 ^ LENGTH(8)" by (rule unsigned_less)
  then show ?thesis by simp
qed

lemma fmtByte_digits: "fmtByte b = [lowerDigit (unat b div 16), lowerDigit (unat b mod 16)]"
proof -
  have lt: "unat b < 256" by (rule unat_byte_less)
  show ?thesis
  proof (cases "unat b < 16")
    case True
    then show ?thesis
      by (simp add: fmtByte_def fmtInteger_def fmtDigits.simps[of _ "unat b"] lowerDigit_def)
  next
    case False
    then have "unat b div 16 < 16" using lt by simp
    then show ?thesis using False
      by (simp add: fmtByte_def fmtInteger_def fmtDigits.simps[of _ "unat b"]
            fmtDigits.simps[of _ "unat b div 16"])
  qed
qed

lemma hexOf_Cons:
  "hexOf (b # bs) = CHR '' '' # lowerDigit (unat b div 16) # lowerDigit (unat b mod 16) # hexOf bs"
  by (simp add: hexOf_def fmtByte_digits)

lemma length_hexOf: "length (hexOf bs) = 3 * length bs"
  by (induction bs) (simp_all add: hexOf_Cons, simp add: hexOf_def)

lemma decodeHex_two_spaces: "decodeHex (CHR '' '' # CHR '' '' # xs) = []"
  by (cases xs) simp_all

lemma decodeHex_spaces: "decodeHex (replicate n (CHR '' '')) = []"
proof (cases n)
  case 0
  then show ?thesis by simp
next
  case (Suc m)
  then show ?thesis by (cases m) (simp_all add: decodeHex_two_spaces)
qed

lemma byte_of_digits: "(of_nat (16 * (unat b div 16) + unat b mod 16) :: byte) = b"
  by simp

lemma decodeHex_hexOf: "decodeHex (hexOf bs @ replicate n (CHR '' '')) = bs"
proof (induction bs)
  case Nil
  then show ?case by (simp add: hexOf_def decodeHex_spaces)
next
  case (Cons b bs)
  have d: "unat b div 16 < 16" "unat b mod 16 < 16"
    using unat_byte_less[of b] by simp_all
  show ?case
    using Cons lowerDigit_value[OF d(1)] lowerDigit_value[OF d(2)]
    by (simp add: hexOf_Cons byte_of_digits del: of_nat_add of_nat_mult)
qed

lemma fmtDigits_set: "c \<in> set (fmtDigits upperDigit u) \<Longrightarrow> c \<noteq> CHR '' ''"
proof (induction upperDigit u arbitrary: c rule: fmtDigits.induct)
  case (1 u)
  show ?case
  proof (cases "u < 16")
    case True
    then show ?thesis using "1.prems" upperDigit_no_space[of u]
      by (simp add: fmtDigits.simps[of _ u])
  next
    case False
    then have "c \<in> set (fmtDigits upperDigit (u div 16)) \<or> c = upperDigit (u mod 16)"
      using "1.prems" by (auto simp add: fmtDigits.simps[of _ u])
    then show ?thesis
      using "1.hyps"[OF False] upperDigit_no_space[of "u mod 16"] by auto
  qed
qed

lemma fmtAddress_no_space: "c \<in> set (fmtAddress sc a) \<Longrightarrow> c \<noteq> CHR '' ''"
  by (auto simp add: fmtAddress_def fmtInteger_def Let_def dest: fmtDigits_set)

lemma rowLine_shape:
  "rowLine sc w (a, r) =
     fmtAddress sc a @ CHR '' '' # '': '' @ padRight (3 * w) (hexOf r) @ ''  : '' @ chrOf r @ [CHR 0x0A]"
  by (simp add: rowLine_def printfLine_def)

lemma rowLine_after_address:
  "dropWhile (\<lambda>c. c \<noteq> CHR '' '') (rowLine sc w (a, r)) =
     '' : '' @ padRight (3 * w) (hexOf r) @ ''  : '' @ chrOf r @ [CHR 0x0A]"
  unfolding rowLine_shape
  by (subst dropWhile_append2) (auto dest: fmtAddress_no_space)


lemma length_padRight: "length s \<le> n \<Longrightarrow> length (padRight n s) = n"
  by (simp add: padRight_def)

lemma hexColumn_rowLine:
  "length r \<le> w \<Longrightarrow> hexColumn w (rowLine sc w (a, r)) = padRight (3 * w) (hexOf r)"
  by (simp add: hexColumn_def rowLine_after_address length_padRight length_hexOf)

lemma lineBytes_rowLine: "length r \<le> w \<Longrightarrow> lineBytes w (rowLine sc w (a, r)) = r"
  by (simp add: lineBytes_def hexColumn_rowLine padRight_def decodeHex_hexOf)

lemma asciiColumn_rowLine: "length r \<le> w \<Longrightarrow> asciiColumn w (rowLine sc w (a, r)) = chrOf r"
proof -
  assume "length r \<le> w"
  then have l: "length (padRight (3 * w) (hexOf r)) = 3 * w"
    by (simp add: length_padRight length_hexOf)
  have "drop (3 * w + 4) (padRight (3 * w) (hexOf r) @ ''  : '' @ chrOf r @ [CHR 0x0A])
        = chrOf r @ [CHR 0x0A]"
    using l by simp
  then show ?thesis
    by (simp add: asciiColumn_def rowLine_after_address butlast_append)
qed

lemma formatBuffer_chunk:
  assumes "(of_nat w :: uint64) \<noteq> 0"
  shows "formatBuffer (c @ rest) (int (length c)) sc pos w =
         Inr (map (rowLine sc w) (chunkRows w pos c), pos + of_nat (length c))"
  using formatBuffer_rows[OF assms, of "int (length c)" "c @ rest" sc pos] by simp

lemma hexdumpLoop_run:
  assumes w: "(of_nat w :: uint64) \<noteq> 0"
  shows "(\<And>j. j < m \<Longrightarrow> snd (fh (k + j)) = None) \<Longrightarrow> snd (fh (k + m)) = Some e \<Longrightarrow>
         hexdumpLoop fh sc w k buffer offset out =
           Some (None, out @ chunkLines sc w offset (map (\<lambda>j. fst (fh (k + j))) [0..<m])
                        @ errorLines e)"
proof (induction m arbitrary: k buffer offset out)
  case 0
  then obtain bytes where "fh k = (bytes, Some e)" by (cases "fh k") simp
  then show ?case
    by (subst hexdumpLoop.simps) (simp add: errorLines_def)
next
  case (Suc m)
  from Suc.prems(1)[of 0] obtain bytes where f: "fh k = (bytes, None)"
    by (cases "fh k") simp
  have a: "\<And>j. j < m \<Longrightarrow> snd (fh (k + 1 + j)) = None"
    using Suc.prems(1) by (metis Suc_less_eq add_Suc_shift plus_1_eq_Suc add.commute add_Suc_right)
  have b: "snd (fh (k + 1 + m)) = Some e" using Suc.prems(2) by simp
  have l: "map (\<lambda>j. fst (fh (k + j))) [0..<Suc m]
           = bytes # map (\<lambda>j. fst (fh (k + 1 + j))) [0..<m]"
    using f by (simp add: upt_conv_Cons map_Suc_upt[symmetric] del: upt_Suc)
  show ?case
    apply (subst hexdumpLoop.simps)
    apply (simp only: f prod.case Let_def option.case formatBuffer_chunk[OF w] sum.case)
    apply (subst Suc.IH[OF a b])
     apply simp
    apply (simp only: l chunkLines.simps append_assoc)
    done
qed

lemma scripted_run:
  assumes "(of_nat w :: uint64) \<noteq> 0"
  shows "hexdump (scripted chunks (fb, e)) sc w = Some (None, chunkLines sc w 0 chunks @ errorLines e)"
proof -
  have m: "map (\<lambda>j. fst (scripted chunks (fb, e) (0 + j))) [0..<length chunks] = chunks"
    by (rule nth_equalityI) (simp_all add: scripted_def)
  have "hexdump (scripted chunks (fb, e)) sc w =
        Some (None, [] @ chunkLines sc w 0
                (map (\<lambda>j. fst (scripted chunks (fb, e) (0 + j))) [0..<length chunks])
                @ errorLines e)"
    unfolding hexdump_def
    by (rule hexdumpLoop_run[OF assms]) (simp_all add: scripted_def)
  then show ?thesis by (simp only: m append_Nil)
qed


lemma width_ok:
  assumes "w = 16 \<or> w = 32 \<or> w = 64"
  shows "w dvd 2 ^ 64" and "(w::nat) < 2 ^ 64" and "0 < w" and "(of_nat w :: uint64) \<noteq> 0"
proof -
  have "(2::nat) ^ 4 dvd 2 ^ 64" "(2::nat) ^ 5 dvd 2 ^ 64" "(2::nat) ^ 6 dvd 2 ^ 64"
    by (rule le_imp_power_dvd, simp)+
  then have "(16::nat) dvd 2 ^ 64" "(32::nat) dvd 2 ^ 64" "(64::nat) dvd 2 ^ 64"
    by simp_all
  then show "w dvd 2 ^ 64" using assms by auto
  show "w < 2 ^ 64" using assms by auto
  show "0 < w" using assms by auto
  show "(of_nat w :: uint64) \<noteq> 0" using assms by auto
qed


lemma chunkRows_decode:
  assumes "w dvd 2 ^ 64" "w < 2 ^ 64"
  shows "map (lineBytes w \<circ> rowLine sc w) (chunkRows w p c) = map snd (chunkRows w p c)"
    and "map (asciiColumn w \<circ> rowLine sc w) (chunkRows w p c) = map (chrOf \<circ> snd) (chunkRows w p c)"
proof -
  have "\<And>r. r \<in> set (chunkRows w p c) \<Longrightarrow> length (snd r) \<le> w"
    using chunkRows_lengths[OF assms] by blast
  then have a: "\<And>r. r \<in> set (chunkRows w p c) \<Longrightarrow> lineBytes w (rowLine sc w r) = snd r
      \<and> asciiColumn w (rowLine sc w r) = chrOf (snd r)"
    using lineBytes_rowLine asciiColumn_rowLine by (metis prod.collapse)
  show "map (lineBytes w \<circ> rowLine sc w) (chunkRows w p c) = map snd (chunkRows w p c)"
    using a by simp
  show "map (asciiColumn w \<circ> rowLine sc w) (chunkRows w p c) = map (chrOf \<circ> snd) (chunkRows w p c)"
    using a by simp
qed

lemma chrOf_append: "chrOf (xs @ ys) = chrOf xs @ chrOf ys"
  by (simp add: chrOf_def)

lemma chrOf_concat: "concat (map chrOf rs) = chrOf (concat rs)"
  by (induction rs) (simp_all add: chrOf_append, simp add: chrOf_def)

lemma chunkLines_decode:
  assumes "w dvd 2 ^ 64" "w < 2 ^ 64"
  shows "concat (map (lineBytes w) (chunkLines sc w off cs)) = concat cs
       \<and> concat (map (asciiColumn w) (chunkLines sc w off cs)) = chrOf (concat cs)"
proof (induction cs arbitrary: off)
  case Nil
  then show ?case by (simp add: chrOf_def)
next
  case (Cons c cs)
  have "concat (map (chrOf \<circ> snd) (chunkRows w off c)) = chrOf c"
    using chrOf_concat[of "map snd (chunkRows w off c)"] by (simp add: chunkRows_concat)
  then show ?case
    using Cons[of "off + of_nat (length c)"]
    by (simp add: chunkRows_decode[OF assms] chunkRows_concat chrOf_append)
qed




lemma hexOf_Nil: "hexOf [] = []"
  by (simp add: hexOf_def)












lemma maxUint16_value: "uint maxUint16 = 65535"
  by (simp add: maxUint16_def unsigned_minus_1_eq_mask mask_eq_exp_minus_1)

lemma maxUint32_value: "uint maxUint32 = 4294967295"
  by (simp add: maxUint32_def unsigned_minus_1_eq_mask mask_eq_exp_minus_1)




lemma single_byte_lines:
  "map (rowLine sc 16) (chunkRows 16 0 [b]) = [printfLine sc 16 0 (hexOf [b]) (chrOf [b])]"
  by (simp add: chunkRows_def rowLine_def)

lemma hexOf_A: "hexOf [0x41] = '' 41''" and hexOf_B: "hexOf [0x42] = '' 42''"
  by (simp_all add: hexOf_Cons hexOf_Nil lowerDigit_def)

lemma chrOf_A: "chrOf [0x41] = ''A''" and chrOf_B: "chrOf [0x42] = ''B''"
  by (simp_all add: chrOf_def asciiOf_def isPrintable_def chSpace_def chDel_def fmtChar_def
        char_of_eq_iff)

lemma example_open:
  "openRegularFile exampleFiles ''a''
     = Inr (scripted [] ([], otherError ''read a: input/output error''), hex16Bits)"
  "openRegularFile exampleFiles ''b'' = Inr (scripted [[0x41]] ([], EOF), hex16Bits)"
  "openRegularFile exampleFiles ''c'' = Inr (scripted [[0x42]] ([], EOF), hex16Bits)"
  "openRegularFile exampleFiles ''d'' = Inl (''open d: It'' @ [CHR 0x27] @ ''s not a regular file'')"
  "openRegularFile exampleFiles ''x'' = Inl ''stat x: no such file or directory''"
  by (simp_all add: openRegularFile_def exampleFiles_def noFiles_def maxUint16_value
        maxUint32_value)

lemma example_hexdump:
  "hexdump (scripted [] ([], otherError ''read a: input/output error'')) hex16Bits 16
     = Some (None, [''Error: read a: input/output error'' @ [CHR 0x0A]])"
  "hexdump (scripted [[0x41]] ([], EOF)) hex16Bits 16
     = Some (None, [printfLine hex16Bits 16 0 '' 41'' ''A''])"
  "hexdump (scripted [[0x42]] ([], EOF)) hex16Bits 16
     = Some (None, [printfLine hex16Bits 16 0 '' 42'' ''B''])"
  by (simp_all add: scripted_run single_byte_lines hexOf_A hexOf_B chrOf_A chrOf_B errorLines_def)

section \<open>The printability classifier and the ASCII column\<close>

text \<open>
  C6: a byte is rendered verbatim in the ASCII column exactly when its value lies in
  the range from \<open>0x20\<close> up to but excluding \<open>0x7F\<close>; every other byte is rendered
  as a full stop. \<open>isPrintable\<close> is that range test, and \<open>formatBuffer\<close> appends to
  the ASCII accumulator the character with the byte's own value in the first case and
  \<open>.\<close> in the second.
\<close>

theorem ascii_rendering:
  "isPrintable b = (0x20 \<le> unat b \<and> unat b < 0x7F)
   \<and> chrDigits (appendByte b s)
       = chrDigits s @ [if 0x20 \<le> unat b \<and> unat b < 0x7F then char_of (unat b) else CHR ''.'']"
proof -
  have p: "isPrintable b = (0x20 \<le> unat b \<and> unat b < 0x7F)"
    by (simp add: isPrintable_def chSpace_def chDel_def word_le_nat_alt word_less_nat_alt)
  have "chrDigits (appendByte b s) = chrDigits s @ (if isPrintable b then fmtChar b else ''.'')"
    by (simp add: appendByte_def)
  then show ?thesis using p by (simp add: fmtChar_def)
qed

theorem ascii_rendering_witness:
  "isPrintable 0x7E \<and> \<not> isPrintable 0x7F \<and> \<not> isPrintable 0x1F \<and> isPrintable 0x20
   \<and> chrDigits (appendByte 0x41 \<lparr>position = 0, linePosition = 0, hexDigits = [],
                                   chrDigits = ''x'', written = []\<rparr>) = ''xA''
   \<and> chrDigits (appendByte 0x7F \<lparr>position = 0, linePosition = 0, hexDigits = [],
                                   chrDigits = ''x'', written = []\<rparr>) = ''x.''"
  using ascii_rendering[of "0x7E"] ascii_rendering[of "0x7F"] ascii_rendering[of "0x1F"]
    ascii_rendering[of "0x20"]
    ascii_rendering[of "0x41" "\<lparr>position = 0, linePosition = 0, hexDigits = [],
                                   chrDigits = ''x'', written = []\<rparr>"]
  by (simp add: char_of_eq_iff)

section \<open>The running offset\<close>




section \<open>Reconstruction of the stream from the dump\<close>

text \<open>
  C1: for every byte sequence, however it is cut into chunks across the reads (and so
  across the calls of \<open>formatBuffer\<close>), and for each display width 16, 32 and 64,
  the bytes read back from the hex columns of the emitted lines, in order, are exactly
  the bytes of the stream, none lost and none repeated; the ASCII columns, in order,
  are the rendering of the same bytes. \<open>lineBytes\<close> and \<open>asciiColumn\<close> read the
  columns off the text of a line.
\<close>

theorem dump_reconstructs_stream:
  assumes "w = 16 \<or> w = 32 \<or> w = 64"
  shows "\<exists>ls. hexdump (scripted chunks ([], EOF)) sc w = Some (None, ls)
           \<and> concat (map (lineBytes w) ls) = concat chunks
           \<and> concat (map (asciiColumn w) ls) = chrOf (concat chunks)"
  using scripted_run[OF width_ok(4)[OF assms], of chunks "[]" EOF sc]
    chunkLines_decode[OF width_ok(1,2)[OF assms], of sc 0 chunks]
  by (simp add: errorLines_def)

theorem dump_reconstructs_stream_witness:
  "(16 = (16::nat) \<or> (16::nat) = 32 \<or> (16::nat) = 64)
   \<and> (\<exists>ls. hexdump (scripted [[0x41, 0x42], [0x43]] ([], EOF)) hex16Bits 16 = Some (None, ls)
           \<and> concat (map (lineBytes 16) ls) = [0x41, 0x42, 0x43]
           \<and> concat (map (asciiColumn 16) ls) = chrOf [0x41, 0x42, 0x43])"
  using dump_reconstructs_stream[of 16 "[[0x41, 0x42], [0x43]]" hex16Bits]
  by simp

section \<open>The layout of a line\<close>




section \<open>A row split between two calls\<close>



section \<open>Reads of zero bytes\<close>




section \<open>Bytes delivered together with an error\<close>

text \<open>
  C10: when a read returns bytes together with an error, \<open>io.EOF\<close> included, the
  bytes are dropped: \<open>formatBuffer\<close> is not called for that read, the output is the
  one the same stream gives when that read delivers no byte at all, and the hex
  columns of the dump lines hold the bytes of the earlier reads and nothing else.
\<close>

theorem bytes_with_error_discarded:
  assumes "w = 16 \<or> w = 32 \<or> w = 64"
  shows "\<exists>ls. hexdump (scripted chunks (bytes, e)) sc w
               = Some (None, ls @ (if e \<noteq> EOF then [printlnError e] else []))
            \<and> hexdump (scripted chunks ([], e)) sc w
               = Some (None, ls @ (if e \<noteq> EOF then [printlnError e] else []))
            \<and> concat (map (lineBytes w) ls) = concat chunks"
  using scripted_run[OF width_ok(4)[OF assms], of chunks _ e sc]
    chunkLines_decode[OF width_ok(1,2)[OF assms], of sc 0 chunks]
  by (simp add: errorLines_def)

theorem bytes_with_error_discarded_witness:
  "\<exists>ls. hexdump (scripted [[0x41]] ([0x42, 0x43], EOF)) hex16Bits 16 = Some (None, ls)
        \<and> hexdump (scripted [[0x41]] ([], EOF)) hex16Bits 16 = Some (None, ls)
        \<and> concat (map (lineBytes 16) ls) = [0x41]"
  using bytes_with_error_discarded[of 16 "[[0x41]]" "[0x42, 0x43]" EOF hex16Bits]
  by simp

section \<open>Read errors\<close>

text \<open>
  C7, what the code does where the claim says otherwise: the file \<open>a\<close> fails on its
  first read with an error that is not the end of the stream. \<open>hexdump\<close> reports it
  with \<open>fmt.Println\<close>, so the message is a line of standard output and the error
  channel stays empty, whereas the claim puts it on the error channel. The rest of the
  claim holds here: the dump of \<open>a\<close> stops, \<open>b\<close> is dumped after it, and the exit
  status is 0.
\<close>

theorem read_error_on_stdout:
  "main (scripted [] ([], EOF)) exampleFiles False False [''a'', ''b'']
   = Some (\<lparr>stdout = [''Error: read a: input/output error'' @ [CHR 0x0A],
                       printfLine hex16Bits 16 0 '' 41'' ''A''],
             stderr = []\<rparr>, exitCode 0)"
  by (simp add: main_def normalWidth_def example_open example_hexdump)

section \<open>Rejected paths\<close>



section \<open>The address scale\<close>



end
